theory Spec2Isabelle
  imports Main
begin

section \<open>tsc-watch: the line handler of \<^verbatim>\<open>src/lib/tsc-watch.js\<close>\<close>

text \<open>
  The program reads the output of a compiler run in watch mode line by line. Each line is
  classified by \<^verbatim>\<open>detectState\<close> (module \<^verbatim>\<open>stdout-manipulator\<close>); the handler of the
  \<^verbatim>\<open>'line'\<close> event updates two module-level variables, sends messages through
  \<^verbatim>\<open>Signal.send\<close> and calls the \<^verbatim>\<open>runOn...\<close> functions that restart the hook commands.
\<close>

subsection \<open>Data\<close>

text \<open>The five hook commands; one killer variable and one \<^verbatim>\<open>runOn...\<close> function each.\<close>

datatype hook = FirstSuccess | Success | Failure | CompilationStarted | CompilationComplete

text \<open>The object returned by \<^verbatim>\<open>detectState(line)\<close>; \<open>None\<close> stands for \<^verbatim>\<open>null\<close>.\<close>

record detected =
  compilationStarted :: bool
  compilationError :: bool
  compilationComplete :: bool
  fileEmitted :: "string option"

text \<open>
  The functions imported from \<^verbatim>\<open>./stdout-manipulator\<close>. The module is not part of the
  sources at hand, so its three pure functions are parameters of the model; \<^verbatim>\<open>print\<close> is
  an effect (see below).
\<close>

record stdout_manipulator =
  deleteClear :: "string \<Rightarrow> string"
  manipulate :: "string \<Rightarrow> string"
  detectState :: "string \<Rightarrow> detected"

text \<open>
  The result of \<^verbatim>\<open>extractArgs(process.argv)\<close> (lines 18-30). A command that was not given
  is \<open>None\<close>.
\<close>

record options =
  onFirstSuccessCommand :: "string option"
  onSuccessCommand :: "string option"
  onFailureCommand :: "string option"
  onCompilationStarted :: "string option"
  onCompilationComplete :: "string option"
  maxNodeMem :: "string option"
  noColors :: bool
  noClear :: bool
  silent :: bool
  compiler :: string
  args :: "string list"

text \<open>JavaScript truthiness of a value that is a string or \<^verbatim>\<open>null\<close>: the empty string is falsy.\<close>

fun truthy :: "string option \<Rightarrow> bool" where
  "truthy None = False"
| "truthy (Some s) = (s \<noteq> [])"

text \<open>The two module-level variables the line handler writes (lines 11 and 104).\<close>

record tracker =
  firstTime :: bool
  compilationErrorSinceStart :: bool

definition initial :: tracker where
  "initial = \<lparr> firstTime = True, compilationErrorSinceStart = False \<rparr>"

text \<open>
  What the handler does besides updating the tracker, in the order in which it does it:
  \<^item> \<open>Print c k line\<close>: the call \<^verbatim>\<open>print(noColors, noClear, line)\<close>;
  \<^item> \<open>SignalSend m\<close>: the call \<^verbatim>\<open>Signal.send(m)\<close>;
  \<^item> \<open>Call h\<close>: the call of the \<^verbatim>\<open>runOn...\<close> function of hook \<open>h\<close>, which restarts the
    command of \<open>h\<close> when one is configured.
\<close>

datatype effect = Print bool bool string | SignalSend string | Call hook

subsection \<open>\<^verbatim>\<open>Signal\<close> (lines 194-201)\<close>

definition emitStarted :: effect where
  "emitStarted = SignalSend ''started''"

definition emitFirstSuccess :: effect where
  "emitFirstSuccess = SignalSend ''first_success''"

definition emitSuccess :: effect where
  "emitSuccess = SignalSend ''success''"

definition emitFail :: effect where
  "emitFail = SignalSend ''compile_errors''"

definition emitFile :: "string \<Rightarrow> effect" where
  "emitFile path = SignalSend (''file_emitted:'' @ path)"

text \<open>
  \<^verbatim>\<open>Signal.send\<close> is \<^verbatim>\<open>process.send\<close> when that is a function and \<^verbatim>\<open>() => { }\<close>
  otherwise. \<open>Signal_send has_send m\<close> is the list of payloads handed to \<^verbatim>\<open>process.send\<close>
  by one call \<^verbatim>\<open>Signal.send(m)\<close>.
\<close>

definition Signal_send :: "bool \<Rightarrow> string \<Rightarrow> string list" where
  "Signal_send has_send m = (if has_send then [m] else [])"

text \<open>The payloads of the \<^verbatim>\<open>Signal.send\<close> calls of a trace, in order.\<close>

fun sends :: "effect list \<Rightarrow> string list" where
  "sends [] = []"
| "sends (SignalSend m # es) = m # sends es"
| "sends (e # es) = sends es"

text \<open>The hooks whose \<^verbatim>\<open>runOn...\<close> function a trace calls, in order.\<close>

fun calls :: "effect list \<Rightarrow> hook list" where
  "calls [] = []"
| "calls (Call h # es) = h # calls es"
| "calls (e # es) = calls es"

text \<open>What reaches \<^verbatim>\<open>process.send\<close> over a trace.\<close>

definition delivered :: "bool \<Rightarrow> effect list \<Rightarrow> string list" where
  "delivered has_send es = concat (map (Signal_send has_send) (sends es))"

subsection \<open>The handler of the \<^verbatim>\<open>'line'\<close> event (lines 110-152)\<close>

text \<open>Lines 111-119: the classification of one input line.\<close>

definition cleaned :: "stdout_manipulator \<Rightarrow> options \<Rightarrow> string \<Rightarrow> string" where
  "cleaned m opts input =
     manipulate m (if noClear opts then deleteClear m input else input)"

definition classify :: "stdout_manipulator \<Rightarrow> options \<Rightarrow> string \<Rightarrow> detected" where
  "classify m opts input = detectState m (cleaned m opts input)"

text \<open>
  Lines 124-151 on the classification \<open>state\<close>: the new tracker and the effects. The
  assignment of line 124 comes first, so the test of line 138 reads the updated variable.
\<close>

definition on_state :: "tracker \<Rightarrow> detected \<Rightarrow> tracker \<times> effect list" where
  "on_state t state =
     (let errorSinceStart =
            ((\<not> compilationStarted state \<and> compilationErrorSinceStart t)
               \<or> compilationError state);
          file = (case fileEmitted state of None \<Rightarrow> [] | Some path \<Rightarrow> [emitFile path]);
          started =
            (if compilationStarted state then [Call CompilationStarted, emitStarted] else [])
      in if compilationComplete state then
           if errorSinceStart then
             (t\<lparr>compilationErrorSinceStart := errorSinceStart\<rparr>,
              file @ started @ [Call CompilationComplete, emitFail, Call Failure])
           else if firstTime t then
             (t\<lparr>compilationErrorSinceStart := errorSinceStart, firstTime := False\<rparr>,
              file @ started @
                [Call CompilationComplete, emitFirstSuccess, Call FirstSuccess,
                 emitSuccess, Call Success])
           else
             (t\<lparr>compilationErrorSinceStart := errorSinceStart\<rparr>,
              file @ started @ [Call CompilationComplete, emitSuccess, Call Success])
         else
           (t\<lparr>compilationErrorSinceStart := errorSinceStart\<rparr>, file @ started))"

text \<open>The whole handler: lines 111-118 print the cleaned line unless \<^verbatim>\<open>silent\<close>.\<close>

definition line_handler ::
  "stdout_manipulator \<Rightarrow> options \<Rightarrow> tracker \<Rightarrow> string \<Rightarrow> tracker \<times> effect list" where
  "line_handler m opts t input =
     (let line = cleaned m opts input;
          printed = (if \<not> silent opts then [Print (noColors opts) (noClear opts) line] else []);
          (t', es) = on_state t (detectState m line)
      in (t', printed @ es))"

text \<open>
  The lines of the stream are handled one after the other, each to its end (the handler
  has no \<^verbatim>\<open>await\<close>). \<open>run_lines\<close> gives the tracker after the last line and the trace of
  all effects.
\<close>

fun run_lines ::
  "stdout_manipulator \<Rightarrow> options \<Rightarrow> tracker \<Rightarrow> string list \<Rightarrow> tracker \<times> effect list" where
  "run_lines m opts t [] = (t, [])"
| "run_lines m opts t (input # inputs) =
     (let (t', es) = line_handler m opts t input;
          (t'', es') = run_lines m opts t' inputs
      in (t'', es @ es'))"

definition tracker_after ::
  "stdout_manipulator \<Rightarrow> options \<Rightarrow> string list \<Rightarrow> tracker" where
  "tracker_after m opts inputs = fst (run_lines m opts initial inputs)"

definition trace_of ::
  "stdout_manipulator \<Rightarrow> options \<Rightarrow> string list \<Rightarrow> effect list" where
  "trace_of m opts inputs = snd (run_lines m opts initial inputs)"

text \<open>The effects of line number \<open>i\<close> (from 0) of a stream.\<close>

definition line_trace ::
  "stdout_manipulator \<Rightarrow> options \<Rightarrow> string list \<Rightarrow> nat \<Rightarrow> effect list" where
  "line_trace m opts inputs i =
     snd (line_handler m opts (tracker_after m opts (take i inputs)) (inputs ! i))"

subsection \<open>The flag, as the specification words it\<close>

text \<open>
  The lines observed since the most recent line with a start marker, that line included;
  all the lines when none has a start marker yet.
\<close>

fun since_last_start :: "detected list \<Rightarrow> detected list" where
  "since_last_start [] = []"
| "since_last_start (d # ds) =
     (if \<exists>d' \<in> set ds. compilationStarted d' then since_last_start ds else d # ds)"

definition error_observed_since_start :: "detected list \<Rightarrow> bool" where
  "error_observed_since_start ds = (\<exists>d \<in> set (since_last_start ds). compilationError d)"

text \<open>An error-free completion: the line completes a run and line 138 reads \<^verbatim>\<open>false\<close>.\<close>

definition error_free_completion :: "tracker \<Rightarrow> detected \<Rightarrow> bool" where
  "error_free_completion t state =
     (compilationComplete state \<and> \<not> compilationErrorSinceStart (fst (on_state t state)))"

text \<open>The error-free completions among the lines of a stream, by line number.\<close>

definition successes :: "stdout_manipulator \<Rightarrow> options \<Rightarrow> string list \<Rightarrow> nat list" where
  "successes m opts inputs =
     filter (\<lambda>i. error_free_completion (tracker_after m opts (take i inputs))
                    (classify m opts (inputs ! i)))
            [0 ..< length inputs]"

subsection \<open>Start-up (lines 85-105)\<close>

text \<open>
  \<^verbatim>\<open>require.resolve(compiler)\<close> either returns the path of the module or throws an error
  object, of which the code reads \<^verbatim>\<open>code\<close> and \<^verbatim>\<open>message\<close>. The resolver belongs to the
  runtime and is a parameter.
\<close>

datatype resolution = Found string | Throws string string

text \<open>
  How the start-up can end early: \<open>Exited out n\<close> is \<^verbatim>\<open>process.exit(n)\<close> after the lines
  \<open>out\<close> were written with \<^verbatim>\<open>console.error\<close>; \<open>Uncaught code msg\<close> is an exception that
  leaves the module (line 94, \<^verbatim>\<open>throw e\<close>).
\<close>

datatype halt = Exited "string list" nat | Uncaught string string

definition buildNodeParams ::
  "(string \<Rightarrow> resolution) \<Rightarrow> options \<Rightarrow> string list \<Rightarrow> string option \<Rightarrow> halt + string list" where
  "buildNodeParams resolve opts allArgs maxMem =
     (case resolve (compiler opts) of
        Throws code msg \<Rightarrow>
          if code = ''MODULE_NOT_FOUND'' then Inl (Exited [msg] 9) else Inl (Uncaught code msg)
      | Found tscBin \<Rightarrow>
          Inr ((case maxMem of
                  None \<Rightarrow> []
                | Some mem \<Rightarrow> if mem \<noteq> [] then [''--max_old_space_size='' @ mem] else [])
               @ [tscBin] @ allArgs))"

text \<open>
  What the module sets up after line 104, in order: the watched process (line 105), the
  line reader (106), the line handler (110), the message handler when \<^verbatim>\<open>process.on\<close> is a
  function (154-155) and the cleanup handler (203).
\<close>

datatype wiring =
    SpawnWatched string "string list"
  | CreateInterface
  | OnLine
  | OnMessage
  | NodeCleanup

definition startup ::
  "(string \<Rightarrow> resolution) \<Rightarrow> options \<Rightarrow> bool \<Rightarrow> halt + wiring list" where
  "startup resolve opts has_on =
     (case buildNodeParams resolve opts (args opts) (maxNodeMem opts) of
        Inl h \<Rightarrow> Inl h
      | Inr params \<Rightarrow>
          Inr ([SpawnWatched ''node'' params, CreateInterface, OnLine]
               @ (if has_on then [OnMessage] else []) @ [NodeCleanup]))"

section \<open>The hook commands and their killers\<close>

text \<open>
  Each hook has a module-level variable holding the killer of its last invocation
  (lines 12-16), \<^verbatim>\<open>null\<close> at first. The \<^verbatim>\<open>runOn...\<close> functions are \<^verbatim>\<open>async\<close>: a call runs
  up to its first \<^verbatim>\<open>await\<close> and the rest runs later, once the awaited promise has
  settled. The model is a transition system whose events are the calls made by the line
  handler, the messages of the parent process, the continuations of suspended calls, the
  exits of hook processes and the shutdown signal.
\<close>

type_synonym pid = nat

text \<open>
  A suspended call, by the \<^verbatim>\<open>await\<close> (or \<^verbatim>\<open>then\<close>) it is waiting at:
  \<^item> \<open>AwaitKill k cmd\<close>: \<^verbatim>\<open>restart(killer, handler)\<close> at line 41, \<^verbatim>\<open>await kill(killer)\<close>,
    where \<open>k\<close> is the process the killer was called for (\<open>None\<close> for \<^verbatim>\<open>null\<close>) and \<open>cmd\<close>
    the handler;
  \<^item> \<open>AwaitRestart p\<close>: the \<^verbatim>\<open>runOn...\<close> function at \<^verbatim>\<open>killer = await restart(...)\<close>, where
    \<^verbatim>\<open>restart\<close> has returned the killer of the new process \<open>p\<close>;
  \<^item> \<open>AwaitThen k\<close>: the message handler at line 189, \<^verbatim>\<open>promise.then(func)\<close>.
\<close>

datatype pending = AwaitKill "pid option" string | AwaitRestart pid | AwaitThen "pid option"

text \<open>
  What the program does to the outside, in order. The last entry is not an action of the
  program: \<open>Terminated sig\<close> records that the signal \<open>sig\<close> ended the process because no
  listener was installed for it any more.
\<close>

datatype entry =
    KillRequest pid
  | Spawned hook string pid
  | WatchedKill string
  | UnknownMessage string
  | ProcessExit
  | Terminated string

record system =
  killers :: "hook \<Rightarrow> pid option"
  alive :: "(pid \<times> hook) list"
  nextPid :: pid
  tasks :: "hook \<Rightarrow> pending list"
  cleanupInstalled :: bool
  exitWait :: "pid option list option"
  exited :: bool
  hist :: "entry list"

definition boot :: system where
  "boot = \<lparr> killers = (\<lambda>h. None), alive = [], nextPid = 0, tasks = (\<lambda>h. []),
            cleanupInstalled = True, exitWait = None, exited = False, hist = [] \<rparr>"

text \<open>The command configured for a hook (lines 18-23).\<close>

fun command :: "options \<Rightarrow> hook \<Rightarrow> string option" where
  "command opts FirstSuccess = onFirstSuccessCommand opts"
| "command opts Success = onSuccessCommand opts"
| "command opts Failure = onFailureCommand opts"
| "command opts CompilationStarted = onCompilationStarted opts"
| "command opts CompilationComplete = onCompilationComplete opts"

text \<open>The live invocations of a hook, oldest first.\<close>

definition invocations :: "system \<Rightarrow> hook \<Rightarrow> pid list" where
  "invocations s h = map fst (filter (\<lambda>x. snd x = h) (alive s))"

text \<open>
  Modelled from the spec: \<^verbatim>\<open>run\<close> of \<^verbatim>\<open>./runner\<close>, which is not part of the sources at hand.
  \<^verbatim>\<open>run(handler)\<close> spawns a new invocation of the command and returns its handle, the
  killer. Calling the killer requests the termination of that invocation and gives a
  promise that settles once the termination is acknowledged; for an invocation that is no
  longer alive it settles as a successful no-op.
\<close>

definition run :: "hook \<Rightarrow> string \<Rightarrow> system \<Rightarrow> system \<times> pid" where
  "run h handler s =
     (s\<lparr>alive := alive s @ [(nextPid s, h)], nextPid := Suc (nextPid s),
        hist := hist s @ [Spawned h handler (nextPid s)]\<rparr>,
      nextPid s)"

text \<open>\<^verbatim>\<open>kill(killer)\<close>, lines 32-38: the killer is called when there is one.\<close>

definition kill :: "pid option \<Rightarrow> system \<Rightarrow> system" where
  "kill killer s =
     (case killer of None \<Rightarrow> s | Some p \<Rightarrow> s\<lparr>hist := hist s @ [KillRequest p]\<rparr>)"

text \<open>Whether the promise of \<^verbatim>\<open>kill(killer)\<close> has settled.\<close>

definition settled :: "system \<Rightarrow> pid option \<Rightarrow> bool" where
  "settled s killer = (case killer of None \<Rightarrow> True | Some p \<Rightarrow> p \<notin> set (map fst (alive s)))"

definition suspend :: "hook \<Rightarrow> pending \<Rightarrow> system \<Rightarrow> system" where
  "suspend h t s = s\<lparr>tasks := (tasks s)(h := tasks s h @ [t])\<rparr>"

definition drop_at :: "nat \<Rightarrow> 'a list \<Rightarrow> 'a list" where
  "drop_at i xs = take i xs @ drop (Suc i) xs"

text \<open>
  A call of the \<^verbatim>\<open>runOn...\<close> function of hook \<open>h\<close> (lines 55-83), up to the \<^verbatim>\<open>await\<close> of
  line 41: when a command is configured, \<^verbatim>\<open>restart\<close> is called with the current value of
  the killer variable, calls it and waits.
\<close>

definition runOn :: "options \<Rightarrow> hook \<Rightarrow> system \<Rightarrow> system" where
  "runOn opts h s =
     (case command opts h of
        None \<Rightarrow> s
      | Some handler \<Rightarrow>
          if handler \<noteq> [] then suspend h (AwaitKill (killers s h) handler) (kill (killers s h) s)
          else s)"

text \<open>The message handler (lines 155-191).\<close>

definition hook_of_message :: "string \<Rightarrow> hook option" where
  "hook_of_message msg =
     (if msg = ''run-on-compilation-started-command'' then Some CompilationStarted
      else if msg = ''run-on-compilation-complete-command'' then Some CompilationComplete
      else if msg = ''run-on-first-success-command'' then Some FirstSuccess
      else if msg = ''run-on-failure-command'' then Some Failure
      else if msg = ''run-on-success-command'' then Some Success
      else None)"

definition on_message :: "string \<Rightarrow> system \<Rightarrow> system" where
  "on_message msg s =
     (case hook_of_message msg of
        None \<Rightarrow> s\<lparr>hist := hist s @ [UnknownMessage msg]\<rparr>
      | Some h \<Rightarrow> suspend h (AwaitThen (killers s h)) (kill (killers s h) s))"

text \<open>
  The continuation of the suspended call number \<open>i\<close> of hook \<open>h\<close>. A call waiting for a
  kill continues only when the kill has settled.
\<close>

definition resume :: "options \<Rightarrow> hook \<Rightarrow> nat \<Rightarrow> system \<Rightarrow> system option" where
  "resume opts h i s =
     (if i < length (tasks s h) then
        case tasks s h ! i of
          AwaitKill k handler \<Rightarrow>
            if settled s k then
              let (s', p) = run h handler s
              in Some (s'\<lparr>tasks := (tasks s')(h := (tasks s' h)[i := AwaitRestart p])\<rparr>)
            else None
        | AwaitRestart p \<Rightarrow>
            Some (s\<lparr>killers := (killers s)(h := Some p),
                    tasks := (tasks s)(h := drop_at i (tasks s h))\<rparr>)
        | AwaitThen k \<Rightarrow>
            if settled s k then
              Some (runOn opts h (s\<lparr>tasks := (tasks s)(h := drop_at i (tasks s h))\<rparr>))
            else None
      else None)"

text \<open>
  \<^verbatim>\<open>killProcesses(killAll)\<close>, lines 45-53: the killers are called in the order of the
  array; the result is the list of the kills that \<^verbatim>\<open>Promise.all\<close> waits for.
\<close>

definition killProcesses :: "bool \<Rightarrow> system \<Rightarrow> system \<times> pid option list" where
  "killProcesses killAll s =
     (let ks = [if killAll then killers s FirstSuccess else None,
                killers s Success, killers s Failure,
                killers s CompilationStarted, killers s CompilationComplete]
      in (fold kill ks s, ks))"

text \<open>
  The cleanup handler (lines 203-209) for signal \<open>sig\<close>: the watched process is sent the
  signal, the killers are called, \<^verbatim>\<open>process.exit\<close> is left to the \<^verbatim>\<open>then\<close> of line 205, and
  the handler is uninstalled.
\<close>

definition cleanup :: "string \<Rightarrow> system \<Rightarrow> system" where
  "cleanup sig s =
     (let (s', ks) = killProcesses True (s\<lparr>hist := hist s @ [WatchedKill sig]\<rparr>)
      in s'\<lparr>exitWait := Some ks, cleanupInstalled := False\<rparr>)"

text \<open>
  The events:
  \<^item> \<open>Auto h\<close>: the line handler calls the \<^verbatim>\<open>runOn...\<close> function of \<open>h\<close>;
  \<^item> \<open>Message msg\<close>: the parent process sends \<open>msg\<close>;
  \<^item> \<open>Resume h i\<close>: the suspended call number \<open>i\<close> of hook \<open>h\<close> continues;
  \<^item> \<open>Exits p\<close>: the hook process \<open>p\<close> terminates, killed or by itself;
  \<^item> \<open>Signal sig\<close>: a shutdown signal arrives;
  \<^item> \<open>Finish\<close>: the callback of line 205 runs \<^verbatim>\<open>process.exit()\<close>.
  An event that cannot happen in a state gives \<open>None\<close>. \<^verbatim>\<open>nodeCleanup.uninstall()\<close>
  (line 207) removes the signal listeners, so a signal that arrives after the cleanup
  handler has run is not handled any more: it ends the process at once, whether or not
  the kills have settled.
\<close>

datatype event =
    Auto hook
  | Message string
  | Resume hook nat
  | Exits pid
  | Signal string
  | Finish

definition step :: "options \<Rightarrow> event \<Rightarrow> system \<Rightarrow> system option" where
  "step opts e s =
     (if exited s then None
      else case e of
        Auto h \<Rightarrow> Some (runOn opts h s)
      | Message msg \<Rightarrow> Some (on_message msg s)
      | Resume h i \<Rightarrow> resume opts h i s
      | Exits p \<Rightarrow>
          if p \<in> set (map fst (alive s))
          then Some (s\<lparr>alive := filter (\<lambda>x. fst x \<noteq> p) (alive s)\<rparr>)
          else None
      | Signal sig \<Rightarrow>
          if cleanupInstalled s then Some (cleanup sig s)
          else Some (s\<lparr>exited := True, hist := hist s @ [Terminated sig]\<rparr>)
      | Finish \<Rightarrow>
          (case exitWait s of
             None \<Rightarrow> None
           | Some ks \<Rightarrow>
               if list_all (settled s) ks
               then Some (s\<lparr>exited := True, exitWait := None, hist := hist s @ [ProcessExit]\<rparr>)
               else None))"


fun exec :: "options \<Rightarrow> event list \<Rightarrow> system \<Rightarrow> system option" where
  "exec opts [] s = Some s"
| "exec opts (e # es) s = (case step opts e s of None \<Rightarrow> None | Some s' \<Rightarrow> exec opts es s')"

text \<open>
  The hook an event starts a restart of, if any, and the schedules that are serial for a
  hook \<open>h\<close>: every event of the schedule can happen, and every event that starts a restart
  of \<open>h\<close> finds no earlier call for \<open>h\<close> still suspended. Nothing is asked of the restarts
  of the other hooks.
\<close>

fun triggers :: "event \<Rightarrow> hook option" where
  "triggers (Auto h) = Some h"
| "triggers (Message msg) = hook_of_message msg"
| "triggers e = None"

definition waits_turn :: "hook \<Rightarrow> system \<Rightarrow> event \<Rightarrow> bool" where
  "waits_turn h s e = (triggers e = Some h \<longrightarrow> tasks s h = [])"


text \<open>Whether \<open>a\<close> occurs in a history and \<open>b\<close> occurs after its first occurrence.\<close>

definition precedes :: "entry \<Rightarrow> entry \<Rightarrow> entry list \<Rightarrow> bool" where
  "precedes a b es = (a \<in> set es \<and> b \<in> set (dropWhile (\<lambda>e. e \<noteq> a) es))"

text \<open>The live invocations of a hook and the history after a schedule run from the start.\<close>

definition alive_after :: "options \<Rightarrow> event list \<Rightarrow> hook \<Rightarrow> pid list option" where
  "alive_after opts evs h = map_option (\<lambda>s. invocations s h) (exec opts evs boot)"

definition hist_after :: "options \<Rightarrow> event list \<Rightarrow> entry list option" where
  "hist_after opts evs = map_option hist (exec opts evs boot)"

text \<open>The processes whose killers are held in the five variables, in the order of line 46.\<close>

definition slot_pids :: "system \<Rightarrow> pid list" where
  "slot_pids s =
     concat (map (\<lambda>h. case killers s h of None \<Rightarrow> [] | Some p \<Rightarrow> [p])
               [FirstSuccess, Success, Failure, CompilationStarted, CompilationComplete])"

text \<open>How often the cleanup handler has run: it signals the watched process once per run.\<close>

fun is_watched_kill :: "entry \<Rightarrow> bool" where
  "is_watched_kill (WatchedKill sig) = True"
| "is_watched_kill e = False"

definition handler_runs :: "system \<Rightarrow> nat" where
  "handler_runs s = length (filter is_watched_kill (hist s))"

text \<open>
  The invariant behind "the handler runs once": it has run exactly when it is no longer
  installed, and the process exits, or waits to exit, only after it has run.
\<close>

definition cleanup_once :: "system \<Rightarrow> bool" where
  "cleanup_once s =
     (handler_runs s = (if cleanupInstalled s then 0 else 1)
      \<and> (exited s \<longrightarrow> \<not> cleanupInstalled s)
      \<and> (exitWait s \<noteq> None \<longrightarrow> \<not> cleanupInstalled s))"



section \<open>Concrete inputs\<close>

text \<open>
  A stand-in for \<^verbatim>\<open>stdout-manipulator\<close> used in the examples only: a line is classified by
  the marker letters it contains, and a line \<^verbatim>\<open>F<path>\<close> reports an emitted file.
\<close>

definition marks :: "string \<Rightarrow> detected" where
  "marks line =
     \<lparr> compilationStarted = (CHR ''S'' \<in> set line),
       compilationError = (CHR ''E'' \<in> set line),
       compilationComplete = (CHR ''C'' \<in> set line),
       fileEmitted = (case line of [] \<Rightarrow> None | c # path \<Rightarrow> if c = CHR ''F'' then Some path else None) \<rparr>"

definition demo_manipulator :: stdout_manipulator where
  "demo_manipulator = \<lparr> deleteClear = (\<lambda>l. l), manipulate = (\<lambda>l. l), detectState = marks \<rparr>"

definition demo_options :: options where
  "demo_options =
     \<lparr> onFirstSuccessCommand = Some ''echo first'',
       onSuccessCommand = Some ''node server.js'',
       onFailureCommand = Some ''echo failed'',
       onCompilationStarted = None,
       onCompilationComplete = None,
       maxNodeMem = None,
       noColors = False, noClear = False, silent = True,
       compiler = ''typescript/bin/tsc'',
       args = [''--watch''] \<rparr>"

text \<open>The state in which the success hook is running as process 0 and nothing is suspended.\<close>

definition serving :: system where
  "serving =
     \<lparr> killers = (\<lambda>h. None)(Success := Some 0), alive = [(0, Success)], nextPid = 1,
       tasks = (\<lambda>h. []), cleanupInstalled = True, exitWait = None, exited = False,
       hist = [Spawned Success ''node server.js'' 0] \<rparr>"

text \<open>
  Two shutdowns of the state \<open>serving\<close>. In the first a signal arrives, the hook process
  exits and the callback of line 205 runs. In the second a further signal arrives while
  the kill of the hook process is still pending.
\<close>

definition shutdown_run :: "event list" where
  "shutdown_run =
     [Auto Success, Resume Success 0, Resume Success 0,
      Signal ''SIGINT'', Exits 0, Finish]"

definition interrupted_run :: "event list" where
  "interrupted_run =
     [Auto Success, Resume Success 0, Resume Success 0,
      Signal ''SIGINT'', Signal ''SIGTERM'']"

definition resolve_installed :: "string \<Rightarrow> resolution" where
  "resolve_installed name = Found (''/node_modules/'' @ name)"

definition resolve_missing :: "string \<Rightarrow> resolution" where
  "resolve_missing name = Throws ''MODULE_NOT_FOUND'' (''Cannot find module '' @ name)"

definition resolve_not_exported :: "string \<Rightarrow> resolution" where
  "resolve_not_exported name =
     Throws ''ERR_PACKAGE_PATH_NOT_EXPORTED'' (''Package subpath is not exported: '' @ name)"

section \<open>Properties of the line handler\<close>

subsection \<open>Auxiliary facts\<close>

lemma sends_append: "sends (xs @ ys) = sends xs @ sends ys"
  by (induction xs rule: sends.induct) simp_all

lemma calls_append: "calls (xs @ ys) = calls xs @ calls ys"
  by (induction xs rule: calls.induct) simp_all

lemma line_handler_fst:
  "fst (line_handler m opts t input) = fst (on_state t (classify m opts input))"
  by (simp add: line_handler_def classify_def Let_def split: prod.splits)

lemma line_handler_sends:
  "sends (snd (line_handler m opts t input)) = sends (snd (on_state t (classify m opts input)))"
  by (simp add: line_handler_def classify_def Let_def sends_append split: prod.splits)

lemma line_handler_calls:
  "calls (snd (line_handler m opts t input)) = calls (snd (on_state t (classify m opts input)))"
  by (simp add: line_handler_def classify_def Let_def calls_append split: prod.splits)

lemmas emit_defs = emitStarted_def emitFirstSuccess_def emitSuccess_def emitFail_def emitFile_def

lemmas demo_defs = classify_def cleaned_def demo_manipulator_def demo_options_def marks_def

lemma on_state_flag:
  "compilationErrorSinceStart (fst (on_state t d)) =
     ((\<not> compilationStarted d \<and> compilationErrorSinceStart t) \<or> compilationError d)"
  by (simp add: on_state_def Let_def)

lemma on_state_firstTime:
  "firstTime (fst (on_state t d)) =
     (firstTime t \<and> \<not> error_free_completion t d)"
  by (auto simp add: on_state_def Let_def error_free_completion_def)

lemma run_lines_append:
  "run_lines m opts t (xs @ ys) =
     (let (t', es) = run_lines m opts t xs; (t'', es') = run_lines m opts t' ys
      in (t'', es @ es'))"
  by (induction xs arbitrary: t) (simp_all add: Let_def split: prod.splits)

lemma tracker_after_snoc:
  "tracker_after m opts (xs @ [x]) = fst (line_handler m opts (tracker_after m opts xs) x)"
  by (simp add: tracker_after_def run_lines_append Let_def split: prod.splits)

lemma trace_of_snoc:
  "trace_of m opts (xs @ [x]) =
     trace_of m opts xs @ snd (line_handler m opts (tracker_after m opts xs) x)"
  by (simp add: trace_of_def tracker_after_def run_lines_append Let_def split: prod.splits)

lemma line_trace_last:
  "line_trace m opts (inputs @ [input]) (length inputs) =
     snd (line_handler m opts (tracker_after m opts inputs) input)"
  by (simp add: line_trace_def)

subsection \<open>The outcome of a completion\<close>

text \<open>
  Claim C1. A line whose classification has \<^verbatim>\<open>compilationComplete\<close> produces exactly one
  outcome. The events are the calls of \<^verbatim>\<open>Signal.send\<close>, the hook restarts the calls of the
  \<^verbatim>\<open>runOn...\<close> functions. If \<^verbatim>\<open>compilationErrorSinceStart\<close> is true when line 138 reads
  it, the line sends \<^verbatim>\<open>compile_errors\<close> exactly once, calls the failure hook exactly once
  and neither sends \<^verbatim>\<open>success\<close> nor calls the success hook; otherwise it sends
  \<^verbatim>\<open>success\<close> exactly once, calls the success hook exactly once and neither sends
  \<^verbatim>\<open>compile_errors\<close> nor calls the failure hook. In both cases the call for the
  compilationComplete hook comes first: what the line does before it sends none of the
  three outcome messages and calls no hook but compilationStarted.
\<close>

theorem completion_outcome:
  assumes "compilationComplete (classify m opts input)"
  shows "(if compilationErrorSinceStart (fst (line_handler m opts t input))
          then count_list (sends (snd (line_handler m opts t input))) ''compile_errors'' = 1
             \<and> count_list (calls (snd (line_handler m opts t input))) Failure = 1
             \<and> ''success'' \<notin> set (sends (snd (line_handler m opts t input)))
             \<and> Success \<notin> set (calls (snd (line_handler m opts t input)))
          else count_list (sends (snd (line_handler m opts t input))) ''success'' = 1
             \<and> count_list (calls (snd (line_handler m opts t input))) Success = 1
             \<and> ''compile_errors'' \<notin> set (sends (snd (line_handler m opts t input)))
             \<and> Failure \<notin> set (calls (snd (line_handler m opts t input))))
         \<and> (\<exists>pre post. snd (line_handler m opts t input) = pre @ Call CompilationComplete # post
               \<and> set (calls pre) \<subseteq> {CompilationStarted}
               \<and> set (sends pre) \<inter> {''compile_errors'', ''first_success'', ''success''} = {}
               \<and> CompilationComplete \<notin> set (calls post))"
proof -
  define d where "d = classify m opts input"
  define pre where "pre =
     (if \<not> silent opts then [Print (noColors opts) (noClear opts) (cleaned m opts input)] else [])
     @ (case fileEmitted d of None \<Rightarrow> [] | Some path \<Rightarrow> [emitFile path])
     @ (if compilationStarted d then [Call CompilationStarted, emitStarted] else [])"
  have c: "compilationComplete d"
    using assms by (simp add: d_def)
  have pre_calls: "set (calls pre) \<subseteq> {CompilationStarted}"
    by (simp add: pre_def calls_append emit_defs split: option.splits)
  have pre_sends:
    "set (sends pre) \<inter> {''compile_errors'', ''first_success'', ''success''} = {}"
    by (simp add: pre_def sends_append emit_defs split: option.splits)
  have shape: "\<exists>post. snd (line_handler m opts t input) = pre @ Call CompilationComplete # post
                  \<and> CompilationComplete \<notin> set (calls post)"
    using c
    by (simp add: line_handler_def on_state_def Let_def pre_def d_def [symmetric]
        classify_def [symmetric] emit_defs)
  have flag: "compilationErrorSinceStart (fst (line_handler m opts t input)) =
                compilationErrorSinceStart (fst (on_state t d))"
    by (simp add: line_handler_fst d_def)
  have outcome:
    "if compilationErrorSinceStart (fst (on_state t d))
     then count_list (sends (snd (on_state t d))) ''compile_errors'' = 1
        \<and> count_list (calls (snd (on_state t d))) Failure = 1
        \<and> ''success'' \<notin> set (sends (snd (on_state t d)))
        \<and> Success \<notin> set (calls (snd (on_state t d)))
     else count_list (sends (snd (on_state t d))) ''success'' = 1
        \<and> count_list (calls (snd (on_state t d))) Success = 1
        \<and> ''compile_errors'' \<notin> set (sends (snd (on_state t d)))
        \<and> Failure \<notin> set (calls (snd (on_state t d)))"
    using c
    by (simp add: on_state_def Let_def sends_append calls_append emit_defs
        split: option.splits)
  show ?thesis
    using outcome shape pre_calls pre_sends
    unfolding flag line_handler_sends line_handler_calls d_def [symmetric]
    by blast
qed

theorem completion_outcome_witness:
  "compilationComplete (classify demo_manipulator demo_options ''C'')
   \<and> \<not> compilationErrorSinceStart (fst (line_handler demo_manipulator demo_options initial ''C''))
   \<and> count_list (sends (snd (line_handler demo_manipulator demo_options initial ''C''))) ''success'' = 1
   \<and> count_list (calls (snd (line_handler demo_manipulator demo_options initial ''C''))) Success = 1
   \<and> ''compile_errors'' \<notin> set (sends (snd (line_handler demo_manipulator demo_options initial ''C'')))"
proof -
  have h: "compilationComplete (classify demo_manipulator demo_options ''C'')"
    by (simp add: demo_defs)
  have f: "\<not> compilationErrorSinceStart (fst (line_handler demo_manipulator demo_options initial ''C''))"
    by (simp add: line_handler_fst on_state_flag initial_def demo_defs)
  show ?thesis
    using h f completion_outcome [OF h, of initial] by simp
qed

subsection \<open>The error flag\<close>

lemma since_last_start_snoc:
  "since_last_start (ds @ [d]) =
     (if compilationStarted d then [d] else since_last_start ds @ [d])"
  by (induction ds) auto

lemma flag_is_spec:
  "compilationErrorSinceStart (tracker_after m opts inputs) =
     error_observed_since_start (map (classify m opts) inputs)"
proof (induction inputs rule: rev_induct)
  case Nil
  then show ?case
    by (simp add: tracker_after_def initial_def error_observed_since_start_def)
next
  case (snoc x xs)
  then show ?case
    by (auto simp add: tracker_after_snoc line_handler_fst on_state_flag
        error_observed_since_start_def since_last_start_snoc)
qed

text \<open>
  Claim C2. After any prefix of the input lines, \<^verbatim>\<open>compilationErrorSinceStart\<close> is true
  exactly when a line with \<^verbatim>\<open>compilationError\<close> has been observed since the most recent
  line with \<^verbatim>\<open>compilationStarted\<close>, that line included (since the first line, when no line
  has started a compilation yet). A line with \<^verbatim>\<open>compilationStarted\<close> sets the flag to its
  own \<^verbatim>\<open>compilationError\<close>; no other line clears a flag that is set.
\<close>

theorem errorSinceStart_invariant:
  "compilationErrorSinceStart (tracker_after m opts (take n inputs)) =
     error_observed_since_start (map (classify m opts) (take n inputs))
   \<and> (compilationStarted (classify m opts input) \<longrightarrow>
        compilationErrorSinceStart (fst (line_handler m opts t input)) =
          compilationError (classify m opts input))
   \<and> (\<not> compilationStarted (classify m opts input) \<and> compilationErrorSinceStart t \<longrightarrow>
        compilationErrorSinceStart (fst (line_handler m opts t input)))"
  by (simp add: flag_is_spec line_handler_fst on_state_flag)

theorem errorSinceStart_invariant_witness:
  "compilationStarted (classify demo_manipulator demo_options ''S'')
   \<and> (\<not> compilationStarted (classify demo_manipulator demo_options ''E'')
        \<and> compilationErrorSinceStart (initial\<lparr>compilationErrorSinceStart := True\<rparr>))
   \<and> \<not> compilationErrorSinceStart
          (fst (line_handler demo_manipulator demo_options
                  (initial\<lparr>compilationErrorSinceStart := True\<rparr>) ''S''))
   \<and> compilationErrorSinceStart
        (fst (line_handler demo_manipulator demo_options
                  (initial\<lparr>compilationErrorSinceStart := True\<rparr>) ''E''))
   \<and> compilationErrorSinceStart
        (tracker_after demo_manipulator demo_options (take 3 [''E'', ''S'', ''E'', ''S'']))
   \<and> error_observed_since_start
        (map (classify demo_manipulator demo_options) (take 3 [''E'', ''S'', ''E'', ''S'']))"
proof -
  have spec: "error_observed_since_start
        (map (classify demo_manipulator demo_options) (take 3 [''E'', ''S'', ''E'', ''S'']))"
    by (simp add: error_observed_since_start_def demo_defs)
  show ?thesis
    using spec errorSinceStart_invariant [of demo_manipulator demo_options 3
        "[''E'', ''S'', ''E'', ''S'']" "''S''" "initial\<lparr>compilationErrorSinceStart := True\<rparr>"]
      errorSinceStart_invariant [of demo_manipulator demo_options 3
        "[''E'', ''S'', ''E'', ''S'']" "''E''" "initial\<lparr>compilationErrorSinceStart := True\<rparr>"]
    by (simp add: demo_defs)
qed

subsection \<open>The first success\<close>

lemma on_state_first_success:
  "''first_success'' \<in> set (sends (snd (on_state t d))) \<longleftrightarrow>
     firstTime t \<and> error_free_completion t d"
  by (auto simp add: on_state_def Let_def error_free_completion_def sends_append emit_defs
      split: option.splits)

lemma on_state_FirstSuccess:
  "FirstSuccess \<in> set (calls (snd (on_state t d))) \<longleftrightarrow>
     firstTime t \<and> error_free_completion t d"
  by (auto simp add: on_state_def Let_def error_free_completion_def calls_append emit_defs
      split: option.splits)

lemma on_state_count_first:
  "count_list (sends (snd (on_state t d))) ''first_success'' =
     (if firstTime t \<and> error_free_completion t d then 1 else 0)"
  by (auto simp add: on_state_def Let_def error_free_completion_def sends_append emit_defs
      split: option.splits)

lemma on_state_count_First:
  "count_list (calls (snd (on_state t d))) FirstSuccess =
     (if firstTime t \<and> error_free_completion t d then 1 else 0)"
  by (auto simp add: on_state_def Let_def error_free_completion_def calls_append emit_defs
      split: option.splits)

lemma on_state_success:
  "error_free_completion t d \<Longrightarrow>
     count_list (sends (snd (on_state t d))) ''success'' = 1
     \<and> count_list (calls (snd (on_state t d))) Success = 1"
  by (auto simp add: on_state_def Let_def error_free_completion_def sends_append calls_append
      emit_defs split: option.splits)

lemma count_run_lines:
  "count_list (sends (snd (run_lines m opts t inputs))) ''first_success''
     \<le> (if firstTime t then 1 else 0)
   \<and> count_list (calls (snd (run_lines m opts t inputs))) FirstSuccess
     \<le> (if firstTime t then 1 else 0)"
proof (induction inputs arbitrary: t)
  case Nil
  then show ?case by simp
next
  case (Cons x xs)
  let ?t' = "fst (line_handler m opts t x)"
  have ft: "firstTime ?t' = (firstTime t \<and> \<not> error_free_completion t (classify m opts x))"
    by (simp add: line_handler_fst on_state_firstTime)
  have split_run: "snd (run_lines m opts t (x # xs)) =
      snd (line_handler m opts t x) @ snd (run_lines m opts ?t' xs)"
    by (simp add: Let_def split: prod.splits)
  show ?case
    using Cons.IH [of ?t'] ft
    unfolding split_run sends_append calls_append
    by (auto simp add: line_handler_sends line_handler_calls on_state_count_first
        on_state_count_First)
qed

lemma firstTime_prefix:
  "i \<le> length inputs \<Longrightarrow>
     firstTime (tracker_after m opts (take i inputs)) =
       (\<forall>j \<in> set (successes m opts inputs). i \<le> j)"
proof (induction i)
  case 0
  then show ?case by (simp add: tracker_after_def initial_def)
next
  case (Suc i)
  then have i: "i < length inputs" by simp
  have tk: "take (Suc i) inputs = take i inputs @ [inputs ! i]"
    using i by (simp add: take_Suc_conv_app_nth)
  have mem: "i \<in> set (successes m opts inputs) \<longleftrightarrow>
      error_free_completion (tracker_after m opts (take i inputs)) (classify m opts (inputs ! i))"
    using i by (simp add: successes_def)
  have "firstTime (tracker_after m opts (take (Suc i) inputs)) =
      (firstTime (tracker_after m opts (take i inputs)) \<and> i \<notin> set (successes m opts inputs))"
    unfolding tk tracker_after_snoc line_handler_fst on_state_firstTime mem ..
  also have "\<dots> = ((\<forall>j \<in> set (successes m opts inputs). i \<le> j) \<and> i \<notin> set (successes m opts inputs))"
    using Suc by simp
  also have "\<dots> = (\<forall>j \<in> set (successes m opts inputs). Suc i \<le> j)"
    by (metis Suc_leD Suc_le_eq le_neq_implies_less not_less_eq_eq)
  finally show ?case .
qed

lemma successes_demo:
  "successes demo_manipulator demo_options [''C'', ''x'', ''C''] = [0, 2]"
  by (simp add: successes_def upt_rec tracker_after_def line_handler_def on_state_def Let_def
      error_free_completion_def initial_def demo_defs)

text \<open>
  Claim C3. Over any sequence of input lines the handler sends \<^verbatim>\<open>first_success\<close> at most
  once and calls the firstSuccess hook at most once. Both happen on the first error-free
  completion of the stream and on no other line; every error-free completion, the first
  and the later ones, sends \<^verbatim>\<open>success\<close> once and calls the success hook once.
\<close>

theorem first_success_once:
  "count_list (sends (trace_of m opts inputs)) ''first_success'' \<le> 1
   \<and> count_list (calls (trace_of m opts inputs)) FirstSuccess \<le> 1
   \<and> (\<forall>i < length inputs.
        (''first_success'' \<in> set (sends (line_trace m opts inputs i)) \<longleftrightarrow>
           i \<in> set (successes m opts inputs) \<and> (\<forall>j \<in> set (successes m opts inputs). i \<le> j))
      \<and> (FirstSuccess \<in> set (calls (line_trace m opts inputs i)) \<longleftrightarrow>
           i \<in> set (successes m opts inputs) \<and> (\<forall>j \<in> set (successes m opts inputs). i \<le> j)))
   \<and> (\<forall>i \<in> set (successes m opts inputs).
        count_list (sends (line_trace m opts inputs i)) ''success'' = 1
      \<and> count_list (calls (line_trace m opts inputs i)) Success = 1)"
proof -
  have counts: "count_list (sends (trace_of m opts inputs)) ''first_success'' \<le> 1
      \<and> count_list (calls (trace_of m opts inputs)) FirstSuccess \<le> 1"
    using count_run_lines [of m opts initial inputs]
    by (simp add: trace_of_def initial_def)
  have first: "(''first_success'' \<in> set (sends (line_trace m opts inputs i)) \<longleftrightarrow>
           i \<in> set (successes m opts inputs) \<and> (\<forall>j \<in> set (successes m opts inputs). i \<le> j))
      \<and> (FirstSuccess \<in> set (calls (line_trace m opts inputs i)) \<longleftrightarrow>
           i \<in> set (successes m opts inputs) \<and> (\<forall>j \<in> set (successes m opts inputs). i \<le> j))"
    if i: "i < length inputs" for i
  proof -
    have mem: "i \<in> set (successes m opts inputs) \<longleftrightarrow>
      error_free_completion (tracker_after m opts (take i inputs)) (classify m opts (inputs ! i))"
      using i by (simp add: successes_def)
    have ft: "firstTime (tracker_after m opts (take i inputs)) =
       (\<forall>j \<in> set (successes m opts inputs). i \<le> j)"
      using i by (simp add: firstTime_prefix)
    show ?thesis
      unfolding line_trace_def line_handler_sends line_handler_calls on_state_first_success
        on_state_FirstSuccess mem ft by blast
  qed
  have later: "count_list (sends (line_trace m opts inputs i)) ''success'' = 1
      \<and> count_list (calls (line_trace m opts inputs i)) Success = 1"
    if "i \<in> set (successes m opts inputs)" for i
    using that
    by (simp add: successes_def line_trace_def line_handler_sends line_handler_calls
        on_state_success)
  show ?thesis
    using counts first later by blast
qed

theorem first_success_once_witness:
  "(0::nat) < length [''C'', ''x'', ''C'']
   \<and> 2 \<in> set (successes demo_manipulator demo_options [''C'', ''x'', ''C''])
   \<and> ''first_success'' \<in> set (sends (line_trace demo_manipulator demo_options [''C'', ''x'', ''C''] 0))
   \<and> ''first_success'' \<notin> set (sends (line_trace demo_manipulator demo_options [''C'', ''x'', ''C''] 2))
   \<and> count_list (sends (line_trace demo_manipulator demo_options [''C'', ''x'', ''C''] 2)) ''success'' = 1"
proof -
  note th = first_success_once [of demo_manipulator demo_options "[''C'', ''x'', ''C'']"]
  have a: "''first_success'' \<in> set (sends (line_trace demo_manipulator demo_options [''C'', ''x'', ''C''] 0))"
    using th successes_demo by simp
  have b: "''first_success'' \<notin> set (sends (line_trace demo_manipulator demo_options [''C'', ''x'', ''C''] 2))"
    using th successes_demo by simp
  have c: "count_list (sends (line_trace demo_manipulator demo_options [''C'', ''x'', ''C''] 2)) ''success'' = 1"
    using th successes_demo by simp
  show ?thesis
    using a b c successes_demo by simp
qed

subsection \<open>A completion without a start\<close>

lemma quiet_prefix_flag:
  "\<forall>x \<in> set inputs. \<not> compilationError (classify m opts x) \<Longrightarrow>
     \<not> compilationErrorSinceStart (tracker_after m opts inputs)"
proof (induction inputs rule: rev_induct)
  case Nil
  then show ?case by (simp add: tracker_after_def initial_def)
next
  case (snoc x xs)
  then show ?case
    by (simp add: tracker_after_snoc line_handler_fst on_state_flag)
qed

text \<open>
  Claim C5. A line with \<^verbatim>\<open>compilationComplete\<close> and without \<^verbatim>\<open>compilationStarted\<close> is
  handled as a completion whatever came before: the flag read at line 138 is the value
  held so far, or true when the line itself carries an error marker, and it alone decides
  between the failure and the success outcome. In particular, when no line so far carried
  an error marker, and the completing line carries none, the line is reported as a
  success: it sends \<^verbatim>\<open>success\<close> and calls the success hook, and it neither sends
  \<^verbatim>\<open>compile_errors\<close> nor calls the failure hook.
\<close>

theorem completion_without_start:
  assumes "compilationComplete (classify m opts input)"
    and "\<not> compilationStarted (classify m opts input)"
  shows "compilationErrorSinceStart (fst (line_handler m opts t input)) =
           (compilationErrorSinceStart t \<or> compilationError (classify m opts input))
       \<and> calls (snd (line_handler m opts t input)) =
           CompilationComplete #
           (if compilationErrorSinceStart t \<or> compilationError (classify m opts input)
            then [Failure]
            else (if firstTime t then [FirstSuccess] else []) @ [Success])
       \<and> sends (snd (line_handler m opts t input)) =
           (case fileEmitted (classify m opts input) of
              None \<Rightarrow> [] | Some path \<Rightarrow> [''file_emitted:'' @ path])
           @ (if compilationErrorSinceStart t \<or> compilationError (classify m opts input)
              then [''compile_errors'']
              else (if firstTime t then [''first_success''] else []) @ [''success''])
       \<and> ((\<forall>x \<in> set inputs. \<not> compilationError (classify m opts x))
            \<and> \<not> compilationError (classify m opts input) \<longrightarrow>
          ''success'' \<in> set (sends (line_trace m opts (inputs @ [input]) (length inputs)))
          \<and> Success \<in> set (calls (line_trace m opts (inputs @ [input]) (length inputs)))
          \<and> ''compile_errors'' \<notin> set (sends (line_trace m opts (inputs @ [input]) (length inputs)))
          \<and> Failure \<notin> set (calls (line_trace m opts (inputs @ [input]) (length inputs))))"
proof -
  define d where "d = classify m opts input"
  have c: "compilationComplete d" and n: "\<not> compilationStarted d"
    using assms by (simp_all add: d_def)
  have flag: "compilationErrorSinceStart (fst (on_state t d)) =
      (compilationErrorSinceStart t \<or> compilationError d)" for t
    using n by (simp add: on_state_flag)
  have cs: "calls (snd (on_state t d)) =
           CompilationComplete #
           (if compilationErrorSinceStart t \<or> compilationError d then [Failure]
            else (if firstTime t then [FirstSuccess] else []) @ [Success])" for t
    using c n
    by (simp add: on_state_def Let_def calls_append emit_defs split: option.splits)
  have ss: "sends (snd (on_state t d)) =
           (case fileEmitted d of None \<Rightarrow> [] | Some path \<Rightarrow> [''file_emitted:'' @ path])
           @ (if compilationErrorSinceStart t \<or> compilationError d then [''compile_errors'']
              else (if firstTime t then [''first_success''] else []) @ [''success''])" for t
    using c n
    by (simp add: on_state_def Let_def sends_append emit_defs split: option.splits)
  have mid: "''success'' \<in> set (sends (line_trace m opts (inputs @ [input]) (length inputs)))
          \<and> Success \<in> set (calls (line_trace m opts (inputs @ [input]) (length inputs)))
          \<and> ''compile_errors'' \<notin> set (sends (line_trace m opts (inputs @ [input]) (length inputs)))
          \<and> Failure \<notin> set (calls (line_trace m opts (inputs @ [input]) (length inputs)))"
    if q: "\<forall>x \<in> set inputs. \<not> compilationError (classify m opts x)"
      and e: "\<not> compilationError d"
  proof -
    have f: "\<not> compilationErrorSinceStart (tracker_after m opts inputs)"
      using q by (rule quiet_prefix_flag)
    show ?thesis
      unfolding line_trace_last line_handler_sends line_handler_calls d_def [symmetric] cs ss
      using f e by (simp split: option.splits)
  qed
  show ?thesis
    unfolding line_handler_fst line_handler_sends line_handler_calls d_def [symmetric]
    using flag cs ss mid unfolding d_def [symmetric] by blast
qed

theorem completion_without_start_witness:
  "compilationComplete (classify demo_manipulator demo_options ''C'')
   \<and> \<not> compilationStarted (classify demo_manipulator demo_options ''C'')
   \<and> \<not> compilationError (classify demo_manipulator demo_options ''banner'')
   \<and> \<not> compilationError (classify demo_manipulator demo_options ''C'')
   \<and> ''success'' \<in> set (sends (line_trace demo_manipulator demo_options ([''banner''] @ [''C'']) (length [''banner''])))
   \<and> ''compile_errors'' \<notin> set (sends (line_trace demo_manipulator demo_options ([''banner''] @ [''C'']) (length [''banner''])))
   \<and> calls (snd (line_handler demo_manipulator demo_options initial ''C'')) =
        [CompilationComplete, FirstSuccess, Success]"
proof -
  have c: "compilationComplete (classify demo_manipulator demo_options ''C'')"
    and n: "\<not> compilationStarted (classify demo_manipulator demo_options ''C'')"
    and q: "\<forall>x \<in> set [''banner'']. \<not> compilationError (classify demo_manipulator demo_options x)"
    and e: "\<not> compilationError (classify demo_manipulator demo_options ''C'')"
    by (simp_all add: demo_defs)
  show ?thesis
    using c n q e completion_without_start [OF c n, of initial "[''banner'']"]
    by (simp add: initial_def)
qed


subsection \<open>A start and a completion on one line\<close>

text \<open>
  Claim C10. On a line with both \<^verbatim>\<open>compilationStarted\<close> and \<^verbatim>\<open>compilationComplete\<close> the
  flag becomes the line's own \<^verbatim>\<open>compilationError\<close>; the compilationStarted hook is called
  and \<^verbatim>\<open>started\<close> is sent before the compilationComplete hook is called and the outcome
  is decided; the outcome is the failure one exactly when the line itself carries an error
  marker, and the handler does the same whatever value the flag had before the line.
\<close>

theorem start_and_complete_on_one_line:
  assumes "compilationStarted (classify m opts input)"
    and "compilationComplete (classify m opts input)"
  shows "compilationErrorSinceStart (fst (line_handler m opts t input)) =
           compilationError (classify m opts input)
       \<and> calls (snd (line_handler m opts t input)) =
           [CompilationStarted, CompilationComplete] @
           (if compilationError (classify m opts input) then [Failure]
            else (if firstTime t then [FirstSuccess] else []) @ [Success])
       \<and> sends (snd (line_handler m opts t input)) =
           (case fileEmitted (classify m opts input) of
              None \<Rightarrow> [] | Some path \<Rightarrow> [''file_emitted:'' @ path])
           @ [''started'']
           @ (if compilationError (classify m opts input) then [''compile_errors'']
              else (if firstTime t then [''first_success''] else []) @ [''success''])
       \<and> line_handler m opts (t\<lparr>compilationErrorSinceStart := b\<rparr>) input =
           line_handler m opts (t\<lparr>compilationErrorSinceStart := b'\<rparr>) input
       \<and> (\<exists>pre post. snd (line_handler m opts t input) =
             pre @ [Call CompilationStarted, SignalSend ''started'', Call CompilationComplete] @ post
             \<and> calls pre = []
             \<and> set (calls post) \<subseteq> {Failure, FirstSuccess, Success})"
proof -
  define d where "d = classify m opts input"
  have s: "compilationStarted d" and c: "compilationComplete d"
    using assms by (simp_all add: d_def)
  have flag: "compilationErrorSinceStart (fst (on_state t d)) = compilationError d"
    using s by (simp add: on_state_flag)
  have cs: "calls (snd (on_state t d)) =
           [CompilationStarted, CompilationComplete] @
           (if compilationError d then [Failure]
            else (if firstTime t then [FirstSuccess] else []) @ [Success])"
    using s c by (simp add: on_state_def Let_def calls_append emit_defs split: option.splits)
  have ss: "sends (snd (on_state t d)) =
           (case fileEmitted d of None \<Rightarrow> [] | Some path \<Rightarrow> [''file_emitted:'' @ path])
           @ [''started'']
           @ (if compilationError d then [''compile_errors'']
              else (if firstTime t then [''first_success''] else []) @ [''success''])"
    using s c by (simp add: on_state_def Let_def sends_append emit_defs split: option.splits)
  have indep: "line_handler m opts (t\<lparr>compilationErrorSinceStart := b\<rparr>) input =
           line_handler m opts (t\<lparr>compilationErrorSinceStart := b'\<rparr>) input"
    using s c
    by (simp add: line_handler_def on_state_def Let_def d_def classify_def)
  define pre where "pre =
     (if \<not> silent opts then [Print (noColors opts) (noClear opts) (cleaned m opts input)] else [])
     @ (case fileEmitted d of None \<Rightarrow> [] | Some path \<Rightarrow> [emitFile path])"
  have pre_calls: "calls pre = []"
    by (simp add: pre_def calls_append emit_defs split: option.splits)
  have shape: "\<exists>post. snd (line_handler m opts t input) =
             pre @ [Call CompilationStarted, SignalSend ''started'', Call CompilationComplete] @ post
             \<and> set (calls post) \<subseteq> {Failure, FirstSuccess, Success}"
    using s c
    by (simp add: line_handler_def on_state_def Let_def pre_def d_def [symmetric]
        classify_def [symmetric] emit_defs)
  show ?thesis
    unfolding line_handler_fst line_handler_sends line_handler_calls d_def [symmetric]
    using flag cs ss indep pre_calls shape unfolding d_def [symmetric] by blast
qed

theorem start_and_complete_on_one_line_witness:
  "compilationStarted (classify demo_manipulator demo_options ''SC'')
   \<and> compilationComplete (classify demo_manipulator demo_options ''SC'')
   \<and> \<not> compilationErrorSinceStart
         (fst (line_handler demo_manipulator demo_options
                 (initial\<lparr>compilationErrorSinceStart := True\<rparr>) ''SC''))
   \<and> sends (snd (line_handler demo_manipulator demo_options
                 (initial\<lparr>compilationErrorSinceStart := True\<rparr>) ''SC'')) =
        [''started'', ''first_success'', ''success'']"
proof -
  have s: "compilationStarted (classify demo_manipulator demo_options ''SC'')"
    and c: "compilationComplete (classify demo_manipulator demo_options ''SC'')"
    by (simp_all add: demo_defs)
  show ?thesis
    using s c start_and_complete_on_one_line [OF s c,
        of "initial\<lparr>compilationErrorSinceStart := True\<rparr>"]
    by (simp add: initial_def demo_defs)
qed


subsection \<open>The order of the messages\<close>

lemmas run_defs = line_trace_def trace_of_def tracker_after_def line_handler_def on_state_def
  Let_def initial_def emit_defs

lemma line_trace_prefix:
  "i < length xs \<Longrightarrow> line_trace m opts (xs @ ys) i = line_trace m opts xs i"
  by (simp add: line_trace_def nth_append)

lemma sends_trace_concat:
  "sends (trace_of m opts inputs) =
     concat (map (\<lambda>i. sends (line_trace m opts inputs i)) [0 ..< length inputs])"
proof (induction inputs rule: rev_induct)
  case Nil
  then show ?case by (simp add: trace_of_def)
next
  case (snoc x xs)
  have old: "map (\<lambda>i. sends (line_trace m opts (xs @ [x]) i)) [0 ..< length xs] =
      map (\<lambda>i. sends (line_trace m opts xs i)) [0 ..< length xs]"
    by (rule map_cong) (simp_all add: line_trace_prefix)
  have "concat (map (\<lambda>i. sends (line_trace m opts (xs @ [x]) i)) [0 ..< length (xs @ [x])]) =
      concat (map (\<lambda>i. sends (line_trace m opts (xs @ [x]) i)) [0 ..< length xs])
      @ sends (line_trace m opts (xs @ [x]) (length xs))"
    by simp
  also have "\<dots> = sends (trace_of m opts xs)
      @ sends (snd (line_handler m opts (tracker_after m opts xs) x))"
    unfolding old line_trace_last snoc.IH ..
  finally show ?case
    by (simp add: trace_of_snoc sends_append)
qed

lemma concat_at_most_one:
  "\<forall>x \<in> set xs. length (f x) \<le> 1 \<Longrightarrow>
     concat (map f xs) = map (\<lambda>x. hd (f x)) (filter (\<lambda>x. f x \<noteq> []) xs)"
proof (induction xs)
  case Nil
  then show ?case by simp
next
  case (Cons x xs)
  then have "length (f x) \<le> 1" by simp
  then have "f x = [] \<or> f x = [hd (f x)]"
    by (cases "f x") auto
  then show ?case
    using Cons by auto
qed

lemma demo_line_sends:
  "sends (line_trace demo_manipulator demo_options [''S'', ''banner'', ''E'', ''C''] 0) = [''started'']"
  "sends (line_trace demo_manipulator demo_options [''S'', ''banner'', ''E'', ''C''] (Suc 0)) = []"
  "sends (line_trace demo_manipulator demo_options [''S'', ''banner'', ''E'', ''C''] (Suc (Suc 0))) = []"
  "sends (line_trace demo_manipulator demo_options [''S'', ''banner'', ''E'', ''C''] (Suc (Suc (Suc 0)))) =
     [''compile_errors'']"
  by (simp_all add: run_defs demo_defs)

text \<open>
  Claim C7. When every line of the input makes at most one call of \<^verbatim>\<open>Signal.send\<close>, the
  messages sent over the whole input are exactly the messages of the lines that send one,
  in the order of the lines: one message for each such line, none for the others, nothing
  reordered, merged or dropped.
\<close>

theorem event_order:
  assumes "\<forall>i < length inputs. length (sends (line_trace m opts inputs i)) \<le> 1"
  shows "sends (trace_of m opts inputs) =
           map (\<lambda>i. hd (sends (line_trace m opts inputs i)))
               (filter (\<lambda>i. sends (line_trace m opts inputs i) \<noteq> []) [0 ..< length inputs])"
proof -
  have "\<forall>i \<in> set [0 ..< length inputs]. length (sends (line_trace m opts inputs i)) \<le> 1"
    using assms by simp
  then show ?thesis
    unfolding sends_trace_concat by (rule concat_at_most_one)
qed

theorem event_order_witness:
  "length (sends (line_trace demo_manipulator demo_options [''S'', ''banner'', ''E'', ''C''] 0)) \<le> 1
   \<and> length (sends (line_trace demo_manipulator demo_options [''S'', ''banner'', ''E'', ''C''] 1)) \<le> 1
   \<and> length (sends (line_trace demo_manipulator demo_options [''S'', ''banner'', ''E'', ''C''] 2)) \<le> 1
   \<and> length (sends (line_trace demo_manipulator demo_options [''S'', ''banner'', ''E'', ''C''] 3)) \<le> 1
   \<and> sends (trace_of demo_manipulator demo_options [''S'', ''banner'', ''E'', ''C'']) =
        [''started'', ''compile_errors'']"
proof -
  have h: "\<forall>i < length [''S'', ''banner'', ''E'', ''C''].
      length (sends (line_trace demo_manipulator demo_options [''S'', ''banner'', ''E'', ''C''] i)) \<le> 1"
    by (simp add: All_less_Suc demo_line_sends)
  have u: "[0 ..< length [''S'', ''banner'', ''E'', ''C'']] = [0, Suc 0, Suc (Suc 0), Suc (Suc (Suc 0))]"
    by (simp add: upt_rec)
  show ?thesis
    using event_order [OF h] demo_line_sends
    unfolding u by (simp add: numeral_2_eq_2 numeral_3_eq_3)
qed


subsection \<open>The payloads\<close>

lemma on_state_sends:
  "sends (snd (on_state t d)) =
     (case fileEmitted d of None \<Rightarrow> [] | Some path \<Rightarrow> [''file_emitted:'' @ path])
     @ (if compilationStarted d then [''started''] else [])
     @ (if compilationComplete d then
          if compilationErrorSinceStart (fst (on_state t d)) then [''compile_errors'']
          else (if firstTime t then [''first_success''] else []) @ [''success'']
        else [])"
  by (simp add: on_state_def Let_def sends_append emit_defs split: option.splits)

lemma on_state_sends_all:
  assumes "Q ''started''" and "Q ''first_success''" and "Q ''success''"
    and "Q ''compile_errors''" and "\<And>path. Q (''file_emitted:'' @ path)"
  shows "list_all Q (sends (snd (on_state t d)))"
  unfolding on_state_sends using assms by (simp split: option.splits)

lemma run_lines_sends_all:
  assumes "Q ''started''" and "Q ''first_success''" and "Q ''success''"
    and "Q ''compile_errors''" and "\<And>path. Q (''file_emitted:'' @ path)"
  shows "list_all Q (sends (snd (run_lines m opts t inputs)))"
proof (induction inputs arbitrary: t)
  case Nil
  then show ?case by simp
next
  case (Cons x xs)
  let ?t' = "fst (line_handler m opts t x)"
  have split_run: "snd (run_lines m opts t (x # xs)) =
      snd (line_handler m opts t x) @ snd (run_lines m opts ?t' xs)"
    by (simp add: Let_def split: prod.splits)
  have "list_all Q (sends (snd (on_state t (classify m opts x))))"
    using assms by (rule on_state_sends_all)
  then show ?case
    unfolding split_run sends_append line_handler_sends list_all_append
    using Cons.IH by simp
qed

text \<open>
  Claim C9. Every message the line handler passes to \<^verbatim>\<open>Signal.send\<close> is one of
  \<^verbatim>\<open>started\<close>, \<^verbatim>\<open>first_success\<close>, \<^verbatim>\<open>success\<close>, \<^verbatim>\<open>compile_errors\<close> or
  \<^verbatim>\<open>file_emitted:\<close> followed by a path. When \<^verbatim>\<open>process.send\<close> is a function it receives
  exactly these messages; when it is not, \<^verbatim>\<open>Signal.send\<close> is the empty function and
  nothing is sent: the calls have no effect and no error branch.
\<close>

theorem event_payloads:
  "(\<forall>p \<in> set (sends (trace_of m opts inputs)).
      p \<in> {''started'', ''first_success'', ''success'', ''compile_errors''}
      \<or> (\<exists>path. p = ''file_emitted:'' @ path))
   \<and> delivered True (trace_of m opts inputs) = sends (trace_of m opts inputs)
   \<and> delivered False (trace_of m opts inputs) = []"
proof -
  have a: "\<forall>p \<in> set (sends (trace_of m opts inputs)).
      p \<in> {''started'', ''first_success'', ''success'', ''compile_errors''}
      \<or> (\<exists>path. p = ''file_emitted:'' @ path)"
    unfolding trace_of_def list_all_iff [symmetric]
    by (rule run_lines_sends_all) simp_all
  have b: "delivered True es = sends es" for es
    by (induction es rule: sends.induct) (simp_all add: delivered_def Signal_send_def)
  have c: "delivered False es = []" for es
    by (simp add: delivered_def Signal_send_def)
  show ?thesis
    using a b c by blast
qed

theorem event_payloads_witness:
  "''file_emitted:out.js'' \<in> set (sends (trace_of demo_manipulator demo_options [''Fout.js'', ''SC'']))
   \<and> sends (trace_of demo_manipulator demo_options [''Fout.js'', ''SC'']) =
        [''file_emitted:out.js'', ''started'', ''first_success'', ''success'']
   \<and> delivered False (trace_of demo_manipulator demo_options [''Fout.js'', ''SC'']) = []"
proof -
  have s: "sends (trace_of demo_manipulator demo_options [''Fout.js'', ''SC'']) =
        [''file_emitted:out.js'', ''started'', ''first_success'', ''success'']"
    by (simp add: run_defs demo_defs)
  show ?thesis
    using s event_payloads [of demo_manipulator demo_options "[''Fout.js'', ''SC'']"]
    by simp
qed

section \<open>Properties of the hook restarts\<close>

subsection \<open>Auxiliary facts\<close>

lemma kill_fields [simp]:
  "killers (kill k s) = killers s" "alive (kill k s) = alive s" "tasks (kill k s) = tasks s"
  "nextPid (kill k s) = nextPid s" "cleanupInstalled (kill k s) = cleanupInstalled s"
  "exitWait (kill k s) = exitWait s" "exited (kill k s) = exited s"
  by (simp_all add: kill_def split: option.splits)

lemma suspend_fields [simp]:
  "killers (suspend h t s) = killers s" "alive (suspend h t s) = alive s"
  "tasks (suspend h t s) = (tasks s)(h := tasks s h @ [t])"
  "nextPid (suspend h t s) = nextPid s" "cleanupInstalled (suspend h t s) = cleanupInstalled s"
  "exitWait (suspend h t s) = exitWait s" "exited (suspend h t s) = exited s"
  "hist (suspend h t s) = hist s"
  by (simp_all add: suspend_def)

lemma run_fields [simp]:
  "killers (fst (run g handler s)) = killers s" "tasks (fst (run g handler s)) = tasks s"
  "snd (run g handler s) = nextPid s"
  "cleanupInstalled (fst (run g handler s)) = cleanupInstalled s"
  "exited (fst (run g handler s)) = exited s"
  by (simp_all add: run_def)

lemma fold_kill_fields [simp]:
  "killers (fold kill ks s) = killers s" "alive (fold kill ks s) = alive s"
  "tasks (fold kill ks s) = tasks s" "cleanupInstalled (fold kill ks s) = cleanupInstalled s"
  "exited (fold kill ks s) = exited s" "nextPid (fold kill ks s) = nextPid s"
  by (induction ks arbitrary: s) simp_all

lemma cleanup_fields:
  "killers (cleanup sig s) = killers s" "alive (cleanup sig s) = alive s"
  "tasks (cleanup sig s) = tasks s" "exited (cleanup sig s) = exited s"
  "cleanupInstalled (cleanup sig s) = False"
  by (simp_all add: cleanup_def killProcesses_def Let_def)





lemmas hook_defs = step_def resume_def runOn_def run_def kill_def suspend_def settled_def
  on_message_def hook_of_message_def cleanup_def killProcesses_def drop_at_def
  waits_turn_def invocations_def boot_def Let_def

subsection \<open>Every event keeps the invariant\<close>




lemma resume_in_range:
  "resume opts g i s = Some s' \<Longrightarrow> i < length (tasks s g)"
  by (simp add: resume_def split: if_splits)

lemma resume_AwaitKill:
  assumes "resume opts g i s = Some s'" and "tasks s g ! i = AwaitKill k handler"
  shows "settled s k \<and>
     s' = s\<lparr>alive := alive s @ [(nextPid s, g)], nextPid := Suc (nextPid s),
            hist := hist s @ [Spawned g handler (nextPid s)],
            tasks := (tasks s)(g := (tasks s g)[i := AwaitRestart (nextPid s)])\<rparr>"
  using assms resume_in_range [OF assms(1)]
  by (simp add: resume_def run_def split: if_splits)

lemma resume_AwaitRestart:
  assumes "resume opts g i s = Some s'" and "tasks s g ! i = AwaitRestart p"
  shows "s' = s\<lparr>killers := (killers s)(g := Some p),
                 tasks := (tasks s)(g := drop_at i (tasks s g))\<rparr>"
  using assms resume_in_range [OF assms(1)]
  by (simp add: resume_def)

lemma resume_AwaitThen:
  assumes "resume opts g i s = Some s'" and "tasks s g ! i = AwaitThen k"
  shows "settled s k \<and>
     s' = runOn opts g (s\<lparr>tasks := (tasks s)(g := drop_at i (tasks s g))\<rparr>)"
  using assms resume_in_range [OF assms(1)]
  by (simp add: resume_def split: if_splits)









subsection \<open>At most one live invocation\<close>

lemma runOn_alive [simp]: "alive (runOn opts g s) = alive s"
  by (simp add: runOn_def split: option.splits)

lemma on_message_alive [simp]: "alive (on_message msg s) = alive s"
  by (simp add: on_message_def split: option.splits)







subsection \<open>Shutdown\<close>

lemma hist_kill:
  "hist (kill k s) = hist s @ map KillRequest (case k of None \<Rightarrow> [] | Some p \<Rightarrow> [p])"
  by (simp add: kill_def split: option.splits)

lemma hist_cleanup:
  "hist (cleanup sig s) = hist s @ WatchedKill sig # map KillRequest (slot_pids s)"
  by (simp add: cleanup_def killProcesses_def Let_def hist_kill slot_pids_def)

lemma exitWait_cleanup:
  "exitWait (cleanup sig s) =
     Some [killers s FirstSuccess, killers s Success, killers s Failure,
           killers s CompilationStarted, killers s CompilationComplete]"
  by (simp add: cleanup_def killProcesses_def Let_def)

lemma no_watched_kill [simp]: "filter is_watched_kill (map KillRequest ps) = []"
  by (induction ps) simp_all

lemma handler_runs_kill [simp]: "handler_runs (kill k s) = handler_runs s"
  by (simp add: handler_runs_def kill_def split: option.splits)

lemma handler_runs_runOn [simp]: "handler_runs (runOn opts h s) = handler_runs s"
  using handler_runs_kill [of "killers s h" s]
  by (simp add: handler_runs_def runOn_def split: option.splits)

lemma runOn_flags [simp]:
  "cleanupInstalled (runOn opts h s) = cleanupInstalled s"
  "exited (runOn opts h s) = exited s" "exitWait (runOn opts h s) = exitWait s"
  by (simp_all add: runOn_def split: option.splits)

lemma on_message_flags [simp]:
  "cleanupInstalled (on_message msg s) = cleanupInstalled s"
  "exited (on_message msg s) = exited s"
  "handler_runs (on_message msg s) = handler_runs s"
  using handler_runs_kill [of _ s]
  by (simp_all add: on_message_def handler_runs_def split: option.splits)

lemma on_message_exitWait [simp]: "exitWait (on_message msg s) = exitWait s"
  by (simp add: on_message_def split: option.splits)

lemma resume_flags:
  assumes "resume opts g i s = Some s'"
  shows "cleanupInstalled s' = cleanupInstalled s \<and> exited s' = exited s
       \<and> handler_runs s' = handler_runs s"
proof (cases "tasks s g ! i")
  case (AwaitKill k handler)
  show ?thesis
    unfolding resume_AwaitKill [OF assms AwaitKill, THEN conjunct2]
    by (simp add: handler_runs_def)
next
  case (AwaitRestart p)
  show ?thesis
    unfolding resume_AwaitRestart [OF assms AwaitRestart]
    by (simp add: handler_runs_def)
next
  case (AwaitThen k)
  let ?s1 = "s\<lparr>tasks := (tasks s)(g := drop_at i (tasks s g))\<rparr>"
  have "handler_runs ?s1 = handler_runs s"
    by (simp add: handler_runs_def)
  then show ?thesis
    unfolding resume_AwaitThen [OF assms AwaitThen, THEN conjunct2] by simp
qed

lemma resume_exitWait:
  assumes "resume opts g i s = Some s'"
  shows "exitWait s' = exitWait s"
proof (cases "tasks s g ! i")
  case (AwaitKill k handler)
  show ?thesis
    unfolding resume_AwaitKill [OF assms AwaitKill, THEN conjunct2] by simp
next
  case (AwaitRestart p)
  show ?thesis
    unfolding resume_AwaitRestart [OF assms AwaitRestart] by simp
next
  case (AwaitThen k)
  show ?thesis
    unfolding resume_AwaitThen [OF assms AwaitThen, THEN conjunct2] by simp
qed

lemma handler_runs_cleanup: "handler_runs (cleanup sig s) = Suc (handler_runs s)"
  by (simp add: handler_runs_def hist_cleanup)

lemma step_once:
  assumes "step opts e s = Some s'" and "cleanup_once s"
  shows "cleanup_once s'"
proof (cases e)
  case (Auto g)
  then have "s' = runOn opts g s"
    using assms(1) by (simp add: step_def split: if_splits)
  then show ?thesis
    using assms(2) by (simp add: cleanup_once_def)
next
  case (Message msg)
  then have "s' = on_message msg s"
    using assms(1) by (simp add: step_def split: if_splits)
  then show ?thesis
    using assms(2) by (simp add: cleanup_once_def)
next
  case (Resume g i)
  then have r: "resume opts g i s = Some s'"
    using assms(1) by (simp add: step_def split: if_splits)
  show ?thesis
    using assms(2) resume_flags [OF r] resume_exitWait [OF r]
    by (simp add: cleanup_once_def)
next
  case (Exits p)
  then have "s' = s\<lparr>alive := filter (\<lambda>x. fst x \<noteq> p) (alive s)\<rparr>"
    using assms(1) by (simp add: step_def split: if_splits)
  then show ?thesis
    using assms(2) by (simp add: cleanup_once_def handler_runs_def)
next
  case (Signal sig)
  show ?thesis
  proof (cases "cleanupInstalled s")
    case True
    then have "s' = cleanup sig s" and "\<not> exited s"
      using assms(1) Signal by (simp_all add: step_def split: if_splits)
    then show ?thesis
      using assms(2) True
      by (simp add: cleanup_once_def handler_runs_cleanup cleanup_fields)
  next
    case False
    then have "s' = s\<lparr>exited := True, hist := hist s @ [Terminated sig]\<rparr>"
      using assms(1) Signal by (simp add: step_def split: if_splits)
    then show ?thesis
      using assms(2) False by (simp add: cleanup_once_def handler_runs_def)
  qed
next
  case Finish
  then obtain ks where "exitWait s = Some ks"
    and "s' = s\<lparr>exited := True, exitWait := None, hist := hist s @ [ProcessExit]\<rparr>"
    using assms(1) by (auto simp add: step_def split: if_splits option.splits)
  then show ?thesis
    using assms(2) by (simp add: cleanup_once_def handler_runs_def)
qed

lemma exec_once:
  "exec opts evs s = Some t \<Longrightarrow> cleanup_once s \<Longrightarrow> cleanup_once t"
proof (induction evs arbitrary: s)
  case Nil
  then show ?case by simp
next
  case (Cons e es)
  then obtain s1 where s1: "step opts e s = Some s1" and rest: "exec opts es s1 = Some t"
    by (auto split: option.splits)
  show ?case
    using Cons.IH [OF rest] step_once [OF s1 Cons.prems(2)] by blast
qed

lemma boot_once: "cleanup_once boot"
  by (simp add: cleanup_once_def boot_def handler_runs_def)

lemma serving_reached:
  "exec demo_options [Auto Success, Resume Success 0, Resume Success 0] boot = Some serving"
  by (simp add: hook_defs demo_options_def serving_def fun_upd_idem_iff)

lemma exit_only_two_ways:
  assumes "step opts e s = Some s'" and "exited s'"
  shows "e = Finish \<or>
     (\<exists>sig. e = Signal sig \<and> \<not> cleanupInstalled s \<and> hist s' = hist s @ [Terminated sig])"
proof -
  have alive: "\<not> exited s"
    using assms(1) by (simp add: step_def split: if_splits)
  show ?thesis
  proof (cases e)
    case (Auto g)
    then have "s' = runOn opts g s"
      using assms(1) by (simp add: step_def split: if_splits)
    then show ?thesis
      using assms(2) alive by simp
  next
    case (Message msg)
    then have "s' = on_message msg s"
      using assms(1) by (simp add: step_def split: if_splits)
    then show ?thesis
      using assms(2) alive by simp
  next
    case (Resume g i)
    then have "resume opts g i s = Some s'"
      using assms(1) by (simp add: step_def split: if_splits)
    then show ?thesis
      using assms(2) alive resume_flags by blast
  next
    case (Exits p)
    then have "s' = s\<lparr>alive := filter (\<lambda>x. fst x \<noteq> p) (alive s)\<rparr>"
      using assms(1) by (simp add: step_def split: if_splits)
    then show ?thesis
      using assms(2) alive by simp
  next
    case (Signal sig)
    show ?thesis
    proof (cases "cleanupInstalled s")
      case True
      then have "s' = cleanup sig s"
        using assms(1) Signal by (simp add: step_def split: if_splits)
      then show ?thesis
        using assms(2) alive by (simp add: cleanup_fields)
    next
      case False
      then have "s' = s\<lparr>exited := True, hist := hist s @ [Terminated sig]\<rparr>"
        using assms(1) Signal by (simp add: step_def split: if_splits)
      then show ?thesis
        using Signal False by simp
    qed
  next
    case Finish
    then show ?thesis by simp
  qed
qed

text \<open>
  Claim C6, as the code has it. On a shutdown signal the cleanup handler first sends the
  signal to the watched process, then calls the killers held in the five variables, the
  one of the first-success hook included, in the order of line 46; it does not exit
  itself. \<^verbatim>\<open>process.exit()\<close> runs only from the callback that waits for all of these kills,
  so only after each of them has settled. The handler uninstalls itself, so over any run
  it runs at most once, and exactly once when the process has ended. A further signal
  during the shutdown is therefore not handled any more: it ends the process at once,
  without waiting for the kills. The process ends in no other way.
\<close>

theorem shutdown_sequence:
  "(cleanupInstalled s \<and> \<not> exited s \<longrightarrow>
      step opts (Signal sig) s = Some (cleanup sig s)
      \<and> hist (cleanup sig s) = hist s @ WatchedKill sig # map KillRequest (slot_pids s)
      \<and> exitWait (cleanup sig s) =
           Some [killers s FirstSuccess, killers s Success, killers s Failure,
                 killers s CompilationStarted, killers s CompilationComplete]
      \<and> alive (cleanup sig s) = alive s
      \<and> \<not> exited (cleanup sig s)
      \<and> \<not> cleanupInstalled (cleanup sig s)
      \<and> step opts (Signal sig') (cleanup sig s) =
           Some ((cleanup sig s)\<lparr>exited := True,
                   hist := hist (cleanup sig s) @ [Terminated sig']\<rparr>))
   \<and> (step opts Finish u = Some u' \<longrightarrow>
        (\<exists>ks. exitWait u = Some ks \<and> list_all (settled u) ks)
        \<and> exited u' \<and> hist u' = hist u @ [ProcessExit])
   \<and> (step opts e y = Some y' \<and> exited y' \<longrightarrow>
        e = Finish \<or>
        (\<exists>sig''. e = Signal sig'' \<and> \<not> cleanupInstalled y
                 \<and> hist y' = hist y @ [Terminated sig'']))
   \<and> (exec opts evs boot = Some t \<longrightarrow>
        handler_runs t \<le> 1 \<and> (exited t \<longrightarrow> handler_runs t = 1))"
proof -
  have a: "step opts (Signal sig) s = Some (cleanup sig s)
      \<and> hist (cleanup sig s) = hist s @ WatchedKill sig # map KillRequest (slot_pids s)
      \<and> exitWait (cleanup sig s) =
           Some [killers s FirstSuccess, killers s Success, killers s Failure,
                 killers s CompilationStarted, killers s CompilationComplete]
      \<and> alive (cleanup sig s) = alive s
      \<and> \<not> exited (cleanup sig s)
      \<and> \<not> cleanupInstalled (cleanup sig s)
      \<and> step opts (Signal sig') (cleanup sig s) =
           Some ((cleanup sig s)\<lparr>exited := True,
                   hist := hist (cleanup sig s) @ [Terminated sig']\<rparr>)"
    if "cleanupInstalled s" and "\<not> exited s"
    using that by (simp add: step_def hist_cleanup exitWait_cleanup cleanup_fields)
  have b: "(\<exists>ks. exitWait u = Some ks \<and> list_all (settled u) ks)
        \<and> exited u' \<and> hist u' = hist u @ [ProcessExit]"
    if "step opts Finish u = Some u'"
    using that by (auto simp add: step_def split: if_splits option.splits)
  have c: "e = Finish \<or>
        (\<exists>sig''. e = Signal sig'' \<and> \<not> cleanupInstalled y
                 \<and> hist y' = hist y @ [Terminated sig''])"
    if "step opts e y = Some y'" and "exited y'"
    using that by (rule exit_only_two_ways)
  have d: "handler_runs t \<le> 1 \<and> (exited t \<longrightarrow> handler_runs t = 1)"
    if "exec opts evs boot = Some t"
    using exec_once [OF that boot_once] by (auto simp add: cleanup_once_def)
  show ?thesis
    using a b c d by blast
qed

theorem shutdown_sequence_witness:
  "(cleanupInstalled serving \<and> \<not> exited serving)
   \<and> hist (cleanup ''SIGINT'' serving) =
       [Spawned Success ''node server.js'' 0, WatchedKill ''SIGINT'', KillRequest 0]
   \<and> step demo_options Finish (the (exec demo_options (take 5 shutdown_run) boot)) =
       Some (the (exec demo_options shutdown_run boot))
   \<and> (step demo_options (Signal ''SIGTERM'') (cleanup ''SIGINT'' serving) =
         Some (the (exec demo_options interrupted_run boot))
      \<and> exited (the (exec demo_options interrupted_run boot)))
   \<and> exec demo_options shutdown_run boot = Some (the (exec demo_options shutdown_run boot))
   \<and> exited (the (exec demo_options shutdown_run boot))
   \<and> handler_runs (the (exec demo_options shutdown_run boot)) = 1
   \<and> hist_after demo_options shutdown_run =
       Some [Spawned Success ''node server.js'' 0, WatchedKill ''SIGINT'', KillRequest 0,
             ProcessExit]
   \<and> hist_after demo_options interrupted_run =
       Some [Spawned Success ''node server.js'' 0, WatchedKill ''SIGINT'', KillRequest 0,
             Terminated ''SIGTERM'']"
proof -
  have s: "cleanupInstalled serving \<and> \<not> exited serving"
    by (simp add: serving_def)
  have f: "step demo_options Finish (the (exec demo_options (take 5 shutdown_run) boot)) =
       Some (the (exec demo_options shutdown_run boot))"
    by (simp add: shutdown_run_def hook_defs demo_options_def)
  have g: "step demo_options (Signal ''SIGTERM'') (cleanup ''SIGINT'' serving) =
         Some (the (exec demo_options interrupted_run boot))
      \<and> exited (the (exec demo_options interrupted_run boot))"
    by (simp add: interrupted_run_def serving_def hook_defs demo_options_def fun_eq_iff)
  have e: "exec demo_options shutdown_run boot = Some (the (exec demo_options shutdown_run boot))"
    by (simp add: shutdown_run_def hook_defs demo_options_def)
  have x: "exited (the (exec demo_options shutdown_run boot))"
    by (simp add: shutdown_run_def hook_defs demo_options_def)
  have h: "hist_after demo_options shutdown_run =
       Some [Spawned Success ''node server.js'' 0, WatchedKill ''SIGINT'', KillRequest 0,
             ProcessExit]"
    by (simp add: hist_after_def shutdown_run_def hook_defs demo_options_def)
  have h': "hist_after demo_options interrupted_run =
       Some [Spawned Success ''node server.js'' 0, WatchedKill ''SIGINT'', KillRequest 0,
             Terminated ''SIGTERM'']"
    by (simp add: hist_after_def interrupted_run_def hook_defs demo_options_def)
  have p: "slot_pids serving = [0]"
    by (simp add: slot_pids_def serving_def)
  have i: "hist serving = [Spawned Success ''node server.js'' 0]"
    by (simp add: serving_def)
  note th = shutdown_sequence [where s = serving and opts = demo_options
      and sig = "''SIGINT''" and sig' = "''SIGTERM''"
      and u = "the (exec demo_options (take 5 shutdown_run) boot)"
      and u' = "the (exec demo_options shutdown_run boot)"
      and e = "Signal ''SIGTERM''" and y = "cleanup ''SIGINT'' serving"
      and y' = "the (exec demo_options interrupted_run boot)"
      and evs = shutdown_run and t = "the (exec demo_options shutdown_run boot)"]
  show ?thesis
    using th s f g e x h h' p i by simp
qed

text \<open>
  With the success hook running, the history of a shutdown shows the signal to the
  watched process before the kill of the hook, not after it. And when a second signal
  arrives before the kill has settled, the process ends while the hook process is still
  alive.
\<close>

theorem shutdown_order_counterexample:
  "hist_after demo_options
     [Auto Success, Resume Success 0, Resume Success 0, Signal ''SIGINT''] =
     Some [Spawned Success ''node server.js'' 0, WatchedKill ''SIGINT'', KillRequest 0]
   \<and> \<not> precedes (KillRequest 0) (WatchedKill ''SIGINT'')
         [Spawned Success ''node server.js'' 0, WatchedKill ''SIGINT'', KillRequest 0]
   \<and> precedes (WatchedKill ''SIGINT'') (KillRequest 0)
         [Spawned Success ''node server.js'' 0, WatchedKill ''SIGINT'', KillRequest 0]
   \<and> hist_after demo_options interrupted_run =
       Some [Spawned Success ''node server.js'' 0, WatchedKill ''SIGINT'', KillRequest 0,
             Terminated ''SIGTERM'']
   \<and> alive_after demo_options interrupted_run Success = Some [0]"
  by (simp add: hist_after_def alive_after_def interrupted_run_def precedes_def hook_defs
      demo_options_def)

section \<open>Properties of the start-up\<close>

text \<open>
  Claim C8, as the code has it. When resolving the configured compiler fails with the code
  \<^verbatim>\<open>MODULE_NOT_FOUND\<close>, the message of the error is written with \<^verbatim>\<open>console.error\<close> and the
  process exits with status 9; nothing has been set up then: the watched process is not
  spawned and no handler is registered. An error with any other code is thrown again and
  also ends the start-up, as an uncaught exception. When the compiler resolves, the
  watched process is spawned with the resolved path and the handlers are registered.
\<close>

theorem startup_resolution:
  "(resolve (compiler opts) = Throws ''MODULE_NOT_FOUND'' msg \<longrightarrow>
      startup resolve opts has_on = Inl (Exited [msg] 9))
   \<and> (resolve' (compiler opts) = Throws code msg' \<and> code \<noteq> ''MODULE_NOT_FOUND'' \<longrightarrow>
      startup resolve' opts has_on = Inl (Uncaught code msg'))
   \<and> (resolve'' (compiler opts) = Found tscBin \<longrightarrow>
      (\<exists>pre rest. startup resolve'' opts has_on =
         Inr (SpawnWatched ''node'' (pre @ [tscBin] @ args opts) # CreateInterface # OnLine # rest)))"
  by (simp add: startup_def buildNodeParams_def)

theorem startup_resolution_witness:
  "resolve_missing (compiler demo_options) =
     Throws ''MODULE_NOT_FOUND'' ''Cannot find module typescript/bin/tsc''
   \<and> (resolve_not_exported (compiler demo_options) =
        Throws ''ERR_PACKAGE_PATH_NOT_EXPORTED''
          ''Package subpath is not exported: typescript/bin/tsc''
      \<and> ''ERR_PACKAGE_PATH_NOT_EXPORTED'' \<noteq> ''MODULE_NOT_FOUND'')
   \<and> resolve_installed (compiler demo_options) = Found ''/node_modules/typescript/bin/tsc''
   \<and> startup resolve_missing demo_options True =
       Inl (Exited [''Cannot find module typescript/bin/tsc''] 9)
   \<and> startup resolve_installed demo_options True =
       Inr [SpawnWatched ''node'' [''/node_modules/typescript/bin/tsc'', ''--watch''],
            CreateInterface, OnLine, OnMessage, NodeCleanup]"
proof -
  have a: "resolve_missing (compiler demo_options) =
     Throws ''MODULE_NOT_FOUND'' ''Cannot find module typescript/bin/tsc''"
    by (simp add: resolve_missing_def demo_options_def)
  have b: "resolve_not_exported (compiler demo_options) =
        Throws ''ERR_PACKAGE_PATH_NOT_EXPORTED''
          ''Package subpath is not exported: typescript/bin/tsc''
      \<and> ''ERR_PACKAGE_PATH_NOT_EXPORTED'' \<noteq> ''MODULE_NOT_FOUND''"
    by (simp add: resolve_not_exported_def demo_options_def)
  have c: "resolve_installed (compiler demo_options) = Found ''/node_modules/typescript/bin/tsc''"
    by (simp add: resolve_installed_def demo_options_def)
  have d: "startup resolve_installed demo_options True =
       Inr [SpawnWatched ''node'' [''/node_modules/typescript/bin/tsc'', ''--watch''],
            CreateInterface, OnLine, OnMessage, NodeCleanup]"
    by (simp add: startup_def buildNodeParams_def resolve_installed_def demo_options_def)
  note th = startup_resolution [of resolve_missing demo_options
      "''Cannot find module typescript/bin/tsc''" True resolve_not_exported
      "''ERR_PACKAGE_PATH_NOT_EXPORTED''" "''Package subpath is not exported: typescript/bin/tsc''"
      resolve_installed "''/node_modules/typescript/bin/tsc''"]
  show ?thesis
    using th a b c d by simp
qed

text \<open>
  A compiler path that its package does not export makes \<^verbatim>\<open>require.resolve\<close> fail with
  another code: the start-up ends, and not through the exit with status 9.
\<close>

theorem startup_halt_counterexample:
  "resolve_not_exported (compiler demo_options) =
     Throws ''ERR_PACKAGE_PATH_NOT_EXPORTED''
       ''Package subpath is not exported: typescript/bin/tsc''
   \<and> startup resolve_not_exported demo_options True =
       Inl (Uncaught ''ERR_PACKAGE_PATH_NOT_EXPORTED''
              ''Package subpath is not exported: typescript/bin/tsc'')"
  by (simp add: startup_def buildNodeParams_def resolve_not_exported_def demo_options_def)


end
